theory Spec2Isabelle
  imports Complex_Main "HOL-Library.Multiset" "HOL-Library.Log_Nat"
begin

section \<open>Data model of the cleaning-booking module\<close>

text \<open>
  The booking service (\<^verbatim>\<open>CleaningBookingService\<close>) and its repository
  (\<^verbatim>\<open>CleaningBookingRepository\<close>) work on documents of a document store. Document ids
  are strings (the aggregation compares \<^verbatim>\<open>$toString: "$_id"\<close> with the booking's
  \<^verbatim>\<open>bookingUser\<close>) and timestamps are integers. A JavaScript number is a rational, read
  as the IEEE double nearest to it; the additions and the subtraction of the service round
  as doubles do (see \<open>to_double\<close> below); the store's \<^verbatim>\<open>$sum\<close> is the exact sum, which
  is what doubles give on the integer totals that \<^verbatim>\<open>Math.ceil\<close> yields (below
  \<open>2 ^ 53\<close>). Infinity, NaN, the sign of zero and sums beyond the range of doubles are
  not modelled.
\<close>

text \<open>
  Modelled from the spec: the enumerations \<^verbatim>\<open>CleaningBookingStatusEnum\<close>,
  \<^verbatim>\<open>CleaningBookingPaymentStatusEnum\<close> and \<^verbatim>\<open>ApplicationUserRoleEnum\<close> and the
  entities \<^verbatim>\<open>CleaningBooking\<close>, \<^verbatim>\<open>ApplicationUser\<close> and \<^verbatim>\<open>PaymentReceive\<close> are
  declared outside the sources at hand. The delivery status is one of Initiated, Served,
  Completed, Cancelled and the payment status one of Pending, Completed, Failed/Refunded
  (section 3 of the spec); the sources name the members \<^verbatim>\<open>BookingInitiated\<close>,
  \<^verbatim>\<open>BookingServed\<close>, \<^verbatim>\<open>BookingCompleted\<close>, \<^verbatim>\<open>BookingCancelled\<close>,
  \<^verbatim>\<open>PaymentCompleted\<close> and \<^verbatim>\<open>ADMIN\<close>. The records have the fields the service and
  the repository read or write, and the fields the spec lists for a booking.
\<close>

datatype booking_status = BookingInitiated | BookingServed | BookingCompleted | BookingCancelled

datatype payment_status = PaymentPending | PaymentCompleted | PaymentFailed

datatype application_user_role = ADMIN | USER

record application_user =
  user_id :: string
  email :: string
  fullName :: string
  profilePicture :: string
  dateJoined :: int
  user_isActive :: bool

record payment_receive =
  payment_id :: string
  totalPaid :: rat
  paymentIntentId :: string

record cleaning_booking =
  booking_id :: string
  bookingUser :: string
  paymentReceive :: "string option"
  cleaningDate :: string
  remarks :: string
  cleaningPrice :: rat
  suppliesCharges :: rat
  discountAmount :: rat
  additionalCharges :: rat
  totalAmount :: rat
  bookingStatus :: booking_status
  paymentStatus :: payment_status
  isActive :: bool
  createdAt :: int
  updatedBy :: string
  updatedAt :: int

record store =
  bookings :: "cleaning_booking list"
  users :: "application_user list"
  payments :: "payment_receive list"

subsection \<open>Filter queries\<close>

text \<open>
  A \<^verbatim>\<open>FilterQuery\<close> is a conjunction of conditions on fields; only the conditions the
  source writes are modelled. \<^verbatim>\<open>$nin\<close> and \<^verbatim>\<open>$ne\<close> are the store's
  ``not in'' and ``not equal''.
\<close>

datatype cond =
    Id_eq string
  | IsActive_eq bool
  | BookingStatus_eq booking_status
  | BookingStatus_nin "booking_status list"
  | PaymentStatus_eq payment_status
  | PaymentStatus_ne payment_status
  | BookingUser_eq string

type_synonym filter_query = "cond list"

fun sat :: "cleaning_booking \<Rightarrow> cond \<Rightarrow> bool" where
  "sat b (Id_eq i) = (booking_id b = i)"
| "sat b (IsActive_eq a) = (isActive b = a)"
| "sat b (BookingStatus_eq s) = (bookingStatus b = s)"
| "sat b (BookingStatus_nin ss) = (bookingStatus b \<notin> set ss)"
| "sat b (PaymentStatus_eq p) = (paymentStatus b = p)"
| "sat b (PaymentStatus_ne p) = (paymentStatus b \<noteq> p)"
| "sat b (BookingUser_eq u) = (bookingUser b = u)"

definition matches :: "filter_query \<Rightarrow> cleaning_booking \<Rightarrow> bool" where
  "matches q b = list_all (sat b) q"

subsection \<open>Update queries\<close>

text \<open>
  The \<^verbatim>\<open>UpdateQuery\<close> that \<^verbatim>\<open>updateBooking\<close> builds: \<^verbatim>\<open>updatedBy\<close> and
  \<^verbatim>\<open>updatedAt\<close> are always set, the other keys only when the code assigns them.
\<close>

record update_query =
  q_updatedBy :: string
  q_updatedAt :: int
  q_cleaningDate :: "string option"
  q_remarks :: "string option"
  q_additionalCharges :: "rat option"
  q_totalAmount :: "rat option"
  q_bookingStatus :: "booking_status option"

definition set_field :: "'a option \<Rightarrow> 'a \<Rightarrow> 'a" where
  "set_field v old = (case v of None \<Rightarrow> old | Some x \<Rightarrow> x)"

definition applyUpdate :: "update_query \<Rightarrow> cleaning_booking \<Rightarrow> cleaning_booking" where
  "applyUpdate q b =
     b\<lparr> updatedBy := q_updatedBy q,
        updatedAt := q_updatedAt q,
        cleaningDate := set_field (q_cleaningDate q) (cleaningDate b),
        remarks := set_field (q_remarks q) (remarks b),
        additionalCharges := set_field (q_additionalCharges q) (additionalCharges b),
        totalAmount := set_field (q_totalAmount q) (totalAmount b),
        bookingStatus := set_field (q_bookingStatus q) (bookingStatus b) \<rparr>"

subsection \<open>Primitives of the generic repository\<close>

text \<open>
  Modelled from the spec: the class \<^verbatim>\<open>GenericRepository\<close> that
  \<^verbatim>\<open>CleaningBookingRepository\<close> extends is not among the sources. The spec lists its
  operations as \<^verbatim>\<open>count(filter)\<close>, \<^verbatim>\<open>getAll(filter, {limit, skip, populate})\<close>,
  \<^verbatim>\<open>getOneWhere(filter, {populate})\<close> and \<^verbatim>\<open>updateOneById(id, patch)\<close>, the last
  returning the updated record (\<open>count_docs\<close> is \<^verbatim>\<open>count\<close>). A read takes the first
  document in collection order that matches; a write by id changes the first document with
  that id. A store failure is not modelled, except that a negative \<^verbatim>\<open>skip\<close> is
  refused; a \<^verbatim>\<open>limit\<close> of 0 means no limit.
\<close>

definition populateUser :: "store \<Rightarrow> cleaning_booking \<Rightarrow> application_user option" where
  "populateUser s b = find (\<lambda>u. user_id u = bookingUser b) (users s)"

definition populatePayment :: "store \<Rightarrow> cleaning_booking \<Rightarrow> payment_receive option" where
  "populatePayment s b =
     (case paymentReceive b of
        None \<Rightarrow> None
      | Some r \<Rightarrow> find (\<lambda>p. payment_id p = r) (payments s))"

definition getOneWhere ::
  "store \<Rightarrow> filter_query \<Rightarrow> (cleaning_booking \<times> application_user option) option" where
  "getOneWhere s q =
     (case find (matches q) (bookings s) of
        None \<Rightarrow> None
      | Some b \<Rightarrow> Some (b, populateUser s b))"

fun updateFirst :: "string \<Rightarrow> update_query \<Rightarrow> cleaning_booking list \<Rightarrow> cleaning_booking list" where
  "updateFirst i q [] = []"
| "updateFirst i q (b # bs) =
     (if booking_id b = i then applyUpdate q b # bs else b # updateFirst i q bs)"

definition updateOneById :: "store \<Rightarrow> string \<Rightarrow> update_query \<Rightarrow> cleaning_booking option \<times> store" where
  "updateOneById s i q =
     (map_option (applyUpdate q) (find (\<lambda>b. booking_id b = i) (bookings s)),
      s\<lparr>bookings := updateFirst i q (bookings s)\<rparr>)"

definition count_docs :: "store \<Rightarrow> filter_query \<Rightarrow> nat" where
  "count_docs s q = length (filter (matches q) (bookings s))"

datatype store_error = StoreError

definition getAll ::
  "store \<Rightarrow> filter_query \<Rightarrow> nat \<Rightarrow> int \<Rightarrow> (store \<Rightarrow> cleaning_booking \<Rightarrow> 'a)
     \<Rightarrow> store_error + 'a list" where
  "getAll s q limit skip populate =
     (if skip < 0 then Inl StoreError
      else let found = drop (nat skip) (filter (matches q) (bookings s))
           in Inr (map (populate s) (if limit = 0 then found else take limit found)))"

section \<open>The booking service\<close>

text \<open>
  Every failure the service raises is a \<^verbatim>\<open>BadRequestException\<close>; the kinds of failure
  the specification names differ by their message.
\<close>

datatype http_exception = BadRequestException string

definition ValidationError :: http_exception where
  "ValidationError = BadRequestException ''No fields to update''"

definition NotEligibleError :: "string \<Rightarrow> http_exception" where
  "NotEligibleError bookingId = BadRequestException (''No active booking found with id: '' @ bookingId)"

definition InvalidTransitionError :: http_exception where
  "InvalidTransitionError = BadRequestException ''Booking status is not eligible for update''"

definition CouldNotUpdate :: http_exception where
  "CouldNotUpdate = BadRequestException ''Could not update booking''"

definition message :: "http_exception \<Rightarrow> string" where
  "message e = (case e of BadRequestException m \<Rightarrow> m)"

subsection \<open>The update request\<close>

text \<open>
  Modelled from the spec: the declaration of \<^verbatim>\<open>UpdateCleaningBookingDto\<close> is not among
  the sources. Its fields are the recognized fields of a patch, \<^verbatim>\<open>cleaningDate\<close>,
  \<^verbatim>\<open>remarks\<close>, \<^verbatim>\<open>additionalCharges\<close> and \<^verbatim>\<open>markAsServed\<close> (the four the service
  reads), each optional.

  At run time the request is an object: a recognized key is absent, or present without a
  value (\<^verbatim>\<open>undefined\<close> or \<^verbatim>\<open>null\<close>), or present with a value; the object may have other
  own keys besides, of which \<open>dto_otherKeys\<close> lists the names (the list is read as a
  set of names other than the four).
  \<^verbatim>\<open>Object.keys(dto).length\<close> counts every own key, whatever its name and value; the
  \<^verbatim>\<open>if (dto.field)\<close> tests are JavaScript truthiness: a key that is absent or has no
  value, an empty string, the number 0 and \<^verbatim>\<open>false\<close> are falsy.
\<close>

datatype 'a property = Absent | Undefined | Value 'a

record update_cleaning_booking_dto =
  dto_cleaningDate :: "string property"
  dto_remarks :: "string property"
  dto_additionalCharges :: "rat property"
  dto_markAsServed :: "bool property"
  dto_otherKeys :: "string list"

definition recognized_keys :: "string list" where
  "recognized_keys = [''cleaningDate'', ''remarks'', ''additionalCharges'', ''markAsServed'']"

definition object_keys :: "update_cleaning_booking_dto \<Rightarrow> nat" where
  "object_keys dto =
     length (filter (\<lambda>present. present)
       [dto_cleaningDate dto \<noteq> Absent, dto_remarks dto \<noteq> Absent,
        dto_additionalCharges dto \<noteq> Absent, dto_markAsServed dto \<noteq> Absent])
     + length (remdups (filter (\<lambda>k. k \<notin> set recognized_keys) (dto_otherKeys dto)))"

definition property_value :: "'a property \<Rightarrow> 'a option" where
  "property_value v = (case v of Value x \<Rightarrow> Some x | _ \<Rightarrow> None)"

subsection \<open>Numbers\<close>

text \<open>
  Rounding to the nearest double (binary64), ties to even: for \<open>x\<close> other than 0 with
  \<open>2 ^ E \<le> \<bar>x\<bar> < 2 ^ (E + 1)\<close> (\<open>E\<close> is \<open>floor_log2 \<bar>x\<bar>\<close>, from the number of
  bits of an integer) the doubles around \<open>x\<close> are the multiples of \<open>2 ^ (E - 52)\<close>, and
  of \<open>2 ^ (- 1074)\<close> when \<open>E < - 1022\<close>. \<^verbatim>\<open>a + b\<close> and \<^verbatim>\<open>a - b\<close> are the exact
  result rounded; \<^verbatim>\<open>Math.ceil\<close> is exact.
\<close>

definition floor_log2 :: "rat \<Rightarrow> int" where
  "floor_log2 a =
     (if 1 \<le> a then bitlen \<lfloor>a\<rfloor> - 1 else - bitlen (\<lceil>1 / a\<rceil> - 1))"

definition pow2 :: "int \<Rightarrow> rat" where
  "pow2 e = (if 0 \<le> e then 2 ^ nat e else 1 / 2 ^ nat (- e))"

definition round_half_even :: "rat \<Rightarrow> int" where
  "round_half_even x =
     (let f = \<lfloor>x\<rfloor>; r = x - of_int f
      in if r < 1 / 2 then f else if 1 / 2 < r then f + 1 else if even f then f else f + 1)"

definition to_double :: "rat \<Rightarrow> rat" where
  "to_double x =
     (if x = 0 then 0
      else let e = max (floor_log2 \<bar>x\<bar>) (- 1022) - 52;
               m = round_half_even (\<bar>x\<bar> / pow2 e)
           in sgn x * of_int m * pow2 e)"

definition js_add :: "rat \<Rightarrow> rat \<Rightarrow> rat" where
  "js_add a b = to_double (to_double a + to_double b)"

definition js_sub :: "rat \<Rightarrow> rat \<Rightarrow> rat" where
  "js_sub a b = to_double (to_double a - to_double b)"

definition math_ceil :: "rat \<Rightarrow> rat" where
  "math_ceil x = of_int \<lceil>x\<rceil>"

definition truthy_string :: "string property \<Rightarrow> bool" where
  "truthy_string v = (case v of Value x \<Rightarrow> x \<noteq> [] | _ \<Rightarrow> False)"

definition truthy_number :: "rat property \<Rightarrow> bool" where
  "truthy_number v = (case v of Value x \<Rightarrow> to_double x \<noteq> 0 | _ \<Rightarrow> False)"

definition truthy_bool :: "bool property \<Rightarrow> bool" where
  "truthy_bool v = (case v of Value x \<Rightarrow> x | _ \<Rightarrow> False)"

subsection \<open>Effects of a call\<close>

datatype mail = BookingServedMail string | BookingConfirmedMail string string

datatype store_call = GetOneWhereCall filter_query | UpdateOneByIdCall string update_query

record success_response =
  response_message :: string
  response_data :: "cleaning_booking option"

text \<open>
  What one call of \<^verbatim>\<open>updateBooking\<close> leaves behind: its result (an exception or the success
  envelope), the store after the call, the mails handed to the email service and the store
  primitives the call invoked, both in order.
\<close>

record outcome =
  result :: "http_exception + success_response"
  store_after :: store
  mails_sent :: "mail list"
  store_calls :: "store_call list"

subsection \<open>updateBooking\<close>

definition eligibilityFilter :: "string \<Rightarrow> filter_query" where
  "eligibilityFilter bookingId =
     [Id_eq bookingId, IsActive_eq True,
      BookingStatus_nin [BookingCancelled, BookingCompleted],
      PaymentStatus_ne PaymentCompleted]"

text \<open>The state of a call between its two store operations.\<close>

record pending_update =
  currentBooking :: cleaning_booking
  currentBookingUser :: "application_user option"
  updateQuery :: update_query

text \<open>
  Lines 109 to 143: the update query built from the request and the booking that was read.
  \<open>now\<close> is the value of \<^verbatim>\<open>new Date()\<close>.
\<close>

definition buildUpdateQuery ::
  "cleaning_booking \<Rightarrow> update_cleaning_booking_dto \<Rightarrow> string \<Rightarrow> int \<Rightarrow> http_exception + update_query" where
  "buildUpdateQuery cur dto authUserId now =
     (let q0 = \<lparr> q_updatedBy = authUserId, q_updatedAt = now, q_cleaningDate = None,
                  q_remarks = None, q_additionalCharges = None, q_totalAmount = None,
                  q_bookingStatus = None \<rparr>;
          q1 = (if truthy_string (dto_cleaningDate dto)
                then q0\<lparr>q_cleaningDate := property_value (dto_cleaningDate dto)\<rparr> else q0);
          q2 = (if truthy_string (dto_remarks dto)
                then q1\<lparr>q_remarks := property_value (dto_remarks dto)\<rparr> else q1);
          q3 = (if truthy_number (dto_additionalCharges dto)
                then q2\<lparr> q_additionalCharges := property_value (dto_additionalCharges dto),
                         q_totalAmount :=
                           Some (math_ceil
                             (js_sub
                               (js_add
                                 (js_add (cleaningPrice cur)
                                    (the (property_value (dto_additionalCharges dto))))
                                 (suppliesCharges cur))
                               (discountAmount cur))) \<rparr>
                else q2)
      in if truthy_bool (dto_markAsServed dto)
         then (if bookingStatus cur \<noteq> BookingInitiated then Inl InvalidTransitionError
               else Inr (q3\<lparr>q_bookingStatus := Some BookingServed\<rparr>))
         else Inr q3)"

text \<open>
  Lines 82 to 143: the request is validated, the booking is read through the eligibility
  filter, and the update query is built. Nothing is written.
\<close>

definition updateBooking_check ::
  "store \<Rightarrow> string \<Rightarrow> update_cleaning_booking_dto \<Rightarrow> string \<Rightarrow> int
     \<Rightarrow> (http_exception + pending_update) \<times> store_call list" where
  "updateBooking_check s bookingId dto authUserId now =
     (if object_keys dto < 1 then (Inl ValidationError, [])
      else
        (case getOneWhere s (eligibilityFilter bookingId) of
           None \<Rightarrow> (Inl (NotEligibleError bookingId), [GetOneWhereCall (eligibilityFilter bookingId)])
         | Some (cur, usr) \<Rightarrow>
             (case buildUpdateQuery cur dto authUserId now of
                Inl e \<Rightarrow> (Inl e, [GetOneWhereCall (eligibilityFilter bookingId)])
              | Inr q \<Rightarrow>
                  (Inr \<lparr> currentBooking = cur, currentBookingUser = usr, updateQuery = q \<rparr>,
                   [GetOneWhereCall (eligibilityFilter bookingId)]))))"

text \<open>
  Lines 145 to 167: the write by id, then the notifications. Reading \<^verbatim>\<open>email\<close> of a
  booking user that did not resolve, or \<^verbatim>\<open>cleaningDate\<close> of a missing updated record,
  throws; the \<^verbatim>\<open>catch\<close> block turns that into the generic failure, after the write.
\<close>

definition updateBooking_commit ::
  "store \<Rightarrow> pending_update \<Rightarrow> update_cleaning_booking_dto \<Rightarrow> outcome" where
  "updateBooking_commit s p dto =
     (let i = booking_id (currentBooking p);
          (updatedBooking, s') = updateOneById s i (updateQuery p);
          calls = [UpdateOneByIdCall i (updateQuery p)];
          failed = (\<lambda>ms. \<lparr> result = Inl CouldNotUpdate, store_after = s',
                            mails_sent = ms, store_calls = calls \<rparr>)
      in if truthy_bool (dto_markAsServed dto) \<and> currentBookingUser p = None then failed []
         else
           let served = (if truthy_bool (dto_markAsServed dto)
                         then [BookingServedMail (email (the (currentBookingUser p)))] else [])
           in if truthy_string (dto_cleaningDate dto)
                 \<and> (currentBookingUser p = None \<or> updatedBooking = None)
              then failed served
              else
                \<lparr> result = Inr \<lparr> response_message = ''Booking updated successfully'',
                                  response_data = updatedBooking \<rparr>,
                  store_after = s',
                  mails_sent = served @
                    (if truthy_string (dto_cleaningDate dto)
                     then [BookingConfirmedMail (email (the (currentBookingUser p)))
                             (cleaningDate (the updatedBooking))]
                     else []),
                  store_calls = calls \<rparr>)"

text \<open>The whole call, with nothing running between its two store operations.\<close>

definition updateBooking ::
  "store \<Rightarrow> string \<Rightarrow> update_cleaning_booking_dto \<Rightarrow> string \<Rightarrow> int \<Rightarrow> outcome" where
  "updateBooking s bookingId dto authUserId now =
     (case updateBooking_check s bookingId dto authUserId now of
        (Inl e, calls) \<Rightarrow>
          \<lparr> result = Inl e, store_after = s, mails_sent = [], store_calls = calls \<rparr>
      | (Inr p, calls) \<Rightarrow>
          (let out = updateBooking_commit s p dto
           in out\<lparr>store_calls := calls @ store_calls out\<rparr>))"

subsection \<open>getAllPaidBooking\<close>

text \<open>
  Modelled from the spec: \<^verbatim>\<open>ListCleaningBookingQueryDto\<close> and \<^verbatim>\<open>ITokenPayload\<close> are
  declared outside the sources at hand; the identity is the pair of a user id and a role.
  The fields are those the service destructures: \<^verbatim>\<open>Page\<close>, \<^verbatim>\<open>PageSize\<close> and
  \<^verbatim>\<open>BookingUserId\<close> are optional and default to 1, 10 and the empty string.
\<close>

record list_cleaning_booking_query_dto =
  Page :: "nat option"
  PageSize :: "nat option"
  BookingUserId :: "string option"

record token_payload =
  userId :: string
  userRole :: application_user_role

text \<open>
  The populate options of the listing: \<^verbatim>\<open>bookingUser\<close> with
  \<^verbatim>\<open>"email fullName profilePicture"\<close> (the id stays), \<^verbatim>\<open>paymentReceive\<close> with
  \<^verbatim>\<open>"-_id totalPaid paymentIntentId"\<close>.
\<close>

record user_summary =
  summary_id :: string
  summary_email :: string
  summary_fullName :: string
  summary_profilePicture :: string

record payment_summary =
  summary_totalPaid :: rat
  summary_paymentIntentId :: string

record listed_booking =
  listed_doc :: cleaning_booking
  listed_bookingUser :: "user_summary option"
  listed_paymentReceive :: "payment_summary option"

definition populateListed :: "store \<Rightarrow> cleaning_booking \<Rightarrow> listed_booking" where
  "populateListed s b =
     \<lparr> listed_doc = b,
       listed_bookingUser =
         map_option (\<lambda>u. \<lparr> summary_id = user_id u, summary_email = email u,
                             summary_fullName = fullName u,
                             summary_profilePicture = profilePicture u \<rparr>) (populateUser s b),
       listed_paymentReceive =
         map_option (\<lambda>p. \<lparr> summary_totalPaid = totalPaid p,
                             summary_paymentIntentId = paymentIntentId p \<rparr>) (populatePayment s b) \<rparr>"

record paginated_response =
  totalRecords :: nat
  page :: nat
  pageSize :: nat
  data :: "listed_booking list"

definition searchQuery :: "string \<Rightarrow> token_payload \<Rightarrow> filter_query" where
  "searchQuery bookingUserId tok =
     (let q = [BookingStatus_eq BookingCompleted, PaymentStatus_eq PaymentCompleted]
      in if userRole tok \<noteq> ADMIN then q @ [BookingUser_eq (userId tok)]
         else if bookingUserId \<noteq> [] then q @ [BookingUser_eq bookingUserId]
         else q)"

definition getAllPaidBooking ::
  "store \<Rightarrow> list_cleaning_booking_query_dto \<Rightarrow> token_payload \<Rightarrow> http_exception + paginated_response" where
  "getAllPaidBooking s dto tok =
     (let Page' = (case Page dto of None \<Rightarrow> 1 | Some n \<Rightarrow> n);
          PageSize' = (case PageSize dto of None \<Rightarrow> 10 | Some n \<Rightarrow> n);
          BookingUserId' = (case BookingUserId dto of None \<Rightarrow> [] | Some u \<Rightarrow> u);
          q = searchQuery BookingUserId' tok;
          total = count_docs s q;
          skip = (int Page' - 1) * int PageSize'
      in case getAll s q PageSize' skip populateListed of
           Inl e \<Rightarrow> Inl (BadRequestException ''Could not get all users'')
         | Inr found \<Rightarrow>
             Inr \<lparr> totalRecords = total, page = Page', pageSize = PageSize', data = found \<rparr>)"

section \<open>The booking repository: aggregations\<close>

text \<open>
  An aggregation is a pipeline of stages over the bookings, in collection order. The stages
  follow the store's documented meaning: \<^verbatim>\<open>match\<close> filters, \<^verbatim>\<open>group\<close> with the key
  \<^verbatim>\<open>null\<close> yields one document for a non-empty input and none for an empty one,
  \<^verbatim>\<open>lookup\<close> joins each document with the documents its sub-pipeline selects,
  \<^verbatim>\<open>unwind\<close> yields one document for each joined element (none when the join is empty).
  The order in which \<^verbatim>\<open>group\<close> emits its groups and in which \<^verbatim>\<open>sort\<close> leaves
  equal keys is not fixed by the store; the model emits groups in the order of
  \<open>remdups\<close> and sorts stably.
\<close>

definition completedPaid :: filter_query where
  "completedPaid = [BookingStatus_eq BookingCompleted, PaymentStatus_eq PaymentCompleted]"

definition getTotalBookingEarnings :: "store \<Rightarrow> rat" where
  "getTotalBookingEarnings s =
     (let sorted = sort_key (\<lambda>b. - createdAt b) (bookings s);
          matched = filter (matches completedPaid) sorted;
          grouped = (if matched = [] then [] else [sum_list (map totalAmount matched)])
      in case grouped of [] \<Rightarrow> 0 | totalEarnings # _ \<Rightarrow> totalEarnings)"

record user_projection =
  proj_id :: string
  proj_email :: string
  proj_fullName :: string
  proj_profilePicture :: string
  proj_dateJoined :: int

record top_user =
  top_bookingUser :: user_projection
  totalBookingCount :: nat

definition projectUser :: "application_user \<Rightarrow> user_projection" where
  "projectUser u =
     \<lparr> proj_id = user_id u, proj_email = email u, proj_fullName = fullName u,
       proj_profilePicture = profilePicture u, proj_dateJoined = dateJoined u \<rparr>"

definition lookupStage :: "store \<Rightarrow> cleaning_booking \<Rightarrow> user_projection list" where
  "lookupStage s b =
     map projectUser (filter (\<lambda>u. user_isActive u \<and> user_id u = bookingUser b) (users s))"

definition unwindStage :: "('d \<times> 'u list) list \<Rightarrow> ('d \<times> 'u) list" where
  "unwindStage docs = concat (map (\<lambda>(d, us). map (Pair d) us) docs)"

definition groupStage :: "('d \<times> 'u) list \<Rightarrow> ('u \<times> nat) list" where
  "groupStage docs =
     map (\<lambda>k. (k, length (filter (\<lambda>d. snd d = k) docs))) (remdups (map snd docs))"

definition sortStage :: "('u \<times> nat) list \<Rightarrow> ('u \<times> nat) list" where
  "sortStage groups = sort_key (\<lambda>g. - int (snd g)) groups"

definition findTopUsersByBooking :: "store \<Rightarrow> top_user list" where
  "findTopUsersByBooking s =
     (let matched = filter (matches completedPaid) (bookings s);
          joined = map (\<lambda>b. (b, lookupStage s b)) matched;
          unwound = unwindStage joined;
          grouped = groupStage unwound;
          sorted = sortStage grouped;
          limited = take 10 sorted
      in map (\<lambda>(k, n). \<lparr> top_bookingUser = k, totalBookingCount = n \<rparr>) limited)"

section \<open>Notions of the specification\<close>

text \<open>
  Eligibility for mutation in the specification's words: active, delivery status neither
  Cancelled nor Completed, payment not Completed.
\<close>

definition eligible :: "cleaning_booking \<Rightarrow> bool" where
  "eligible b \<longleftrightarrow>
     isActive b \<and> bookingStatus b \<notin> {BookingCancelled, BookingCompleted}
       \<and> paymentStatus b \<noteq> PaymentCompleted"

text \<open>Document ids are the store's primary keys.\<close>

definition unique_ids :: "store \<Rightarrow> bool" where
  "unique_ids s \<longleftrightarrow> distinct (map booking_id (bookings s))"

definition unique_user_ids :: "store \<Rightarrow> bool" where
  "unique_user_ids s \<longleftrightarrow> distinct (map user_id (users s))"


definition no_fields :: update_cleaning_booking_dto where
  "no_fields = \<lparr> dto_cleaningDate = Absent, dto_remarks = Absent,
                  dto_additionalCharges = Absent, dto_markAsServed = Absent,
                  dto_otherKeys = [] \<rparr>"

section \<open>Example data\<close>

text \<open>
  The booking of the specification's scenario: price 100, supplies 10, discount 5, with an
  additional charge of 20 already applied (total 125), Initiated and Pending.
\<close>

definition U1 :: application_user where
  "U1 = \<lparr> user_id = ''u1'', email = ''ann@example.org'', fullName = ''Ann'',
          profilePicture = ''ann.png'', dateJoined = 1, user_isActive = True \<rparr>"

definition B1 :: cleaning_booking where
  "B1 = \<lparr> booking_id = ''b1'', bookingUser = ''u1'', paymentReceive = None,
          cleaningDate = ''2024-05-01'', remarks = [], cleaningPrice = 100,
          suppliesCharges = 10, discountAmount = 5, additionalCharges = 20, totalAmount = 125,
          bookingStatus = BookingInitiated, paymentStatus = PaymentPending, isActive = True,
          createdAt = 1, updatedBy = ''u1'', updatedAt = 1 \<rparr>"

definition B1_served :: cleaning_booking where
  "B1_served = B1\<lparr>bookingStatus := BookingServed\<rparr>"

definition B1_paid :: cleaning_booking where
  "B1_paid = B1\<lparr>bookingStatus := BookingCompleted, paymentStatus := PaymentCompleted\<rparr>"

definition store1 :: store where
  "store1 = \<lparr> bookings = [B1], users = [U1], payments = [] \<rparr>"

definition store_served :: store where
  "store_served = \<lparr> bookings = [B1_served], users = [U1], payments = [] \<rparr>"

definition store_paid :: store where
  "store_paid = \<lparr> bookings = [B1_paid], users = [U1], payments = [] \<rparr>"

text \<open>The store \<open>store1\<close> without the record of the booking's user.\<close>

definition store_orphan :: store where
  "store_orphan = \<lparr> bookings = [B1], users = [], payments = [] \<rparr>"

definition mark_served :: update_cleaning_booking_dto where
  "mark_served = no_fields\<lparr>dto_markAsServed := Value True\<rparr>"

definition zero_charges :: update_cleaning_booking_dto where
  "zero_charges = no_fields\<lparr>dto_additionalCharges := Value 0\<rparr>"

text \<open>The patch \<^verbatim>\<open>{foo: 1}\<close>: one own key, none of the recognized fields.\<close>

definition foo_only :: update_cleaning_booking_dto where
  "foo_only = no_fields\<lparr>dto_otherKeys := [''foo'']\<rparr>"

text \<open>
  The state of the call \<^verbatim>\<open>updateBooking("b1", {markAsServed: true}, "admin")\<close> on
  \<open>store1\<close> after its read and before its write.
\<close>

definition pending_served :: pending_update where
  "pending_served =
     \<lparr> currentBooking = B1, currentBookingUser = Some U1,
       updateQuery = \<lparr> q_updatedBy = ''admin'', q_updatedAt = 7, q_cleaningDate = None,
                       q_remarks = None, q_additionalCharges = None, q_totalAmount = None,
                       q_bookingStatus = Some BookingServed \<rparr> \<rparr>"

text \<open>
  A store for the reports: the user \<open>U1\<close> has two completed and paid bookings, \<open>U2\<close>
  one, the inactive user \<open>U3\<close> one, and one belongs to a user that has no record; the
  booking \<open>B1\<close> is neither completed nor paid.
\<close>

definition U2 :: application_user where
  "U2 = \<lparr> user_id = ''u2'', email = ''bob@example.org'', fullName = ''Bob'',
          profilePicture = ''bob.png'', dateJoined = 2, user_isActive = True \<rparr>"

definition U3 :: application_user where
  "U3 = \<lparr> user_id = ''u3'', email = ''cy@example.org'', fullName = ''Cy'',
          profilePicture = ''cy.png'', dateJoined = 3, user_isActive = False \<rparr>"

definition B2 :: cleaning_booking where
  "B2 = B1_paid\<lparr>booking_id := ''b2'', createdAt := 2\<rparr>"

definition B3 :: cleaning_booking where
  "B3 = B1_paid\<lparr>booking_id := ''b3'', bookingUser := ''u2'', totalAmount := 80, createdAt := 3\<rparr>"

definition B4 :: cleaning_booking where
  "B4 = B1_paid\<lparr>booking_id := ''b4'', totalAmount := 60, createdAt := 4\<rparr>"

definition B5 :: cleaning_booking where
  "B5 = B1_paid\<lparr>booking_id := ''b5'', bookingUser := ''u3'', totalAmount := 40, createdAt := 5\<rparr>"

definition B6 :: cleaning_booking where
  "B6 = B1_paid\<lparr>booking_id := ''b6'', bookingUser := ''gone'', totalAmount := 30, createdAt := 6\<rparr>"

definition store_report :: store where
  "store_report = \<lparr> bookings = [B1, B2, B3, B4, B5, B6], users = [U1, U2, U3], payments = [] \<rparr>"

text \<open>The same store after a change to the booking that is neither completed nor paid.\<close>

definition store_report_edited :: store where
  "store_report_edited =
     store_report\<lparr>bookings :=
       [B1\<lparr>totalAmount := 999, bookingStatus := BookingCancelled\<rparr>, B2, B3, B4, B5, B6]\<rparr>"

definition bob :: token_payload where
  "bob = \<lparr> userId = ''u2'', userRole = USER \<rparr>"

definition first_page :: list_cleaning_booking_query_dto where
  "first_page = \<lparr> Page = None, PageSize = None, BookingUserId = None \<rparr>"

text \<open>Completed and paid, in the specification's words.\<close>

definition is_completed_paid :: "cleaning_booking \<Rightarrow> bool" where
  "is_completed_paid b \<longleftrightarrow>
     bookingStatus b = BookingCompleted \<and> paymentStatus b = PaymentCompleted"

text \<open>
  Notions for the top-users report: the user projections that the pipeline groups (one for
  each completed and paid booking joined with an active user record), whether a booking's
  owner has an active user record, and the number of completed and paid bookings of a user.
\<close>

definition joinedUsers :: "store \<Rightarrow> user_projection list" where
  "joinedUsers s = concat (map (lookupStage s) (filter is_completed_paid (bookings s)))"

definition has_active_owner :: "store \<Rightarrow> cleaning_booking \<Rightarrow> bool" where
  "has_active_owner s b \<longleftrightarrow> (\<exists>u\<in>set (users s). user_isActive u \<and> user_id u = bookingUser b)"

definition owner_count :: "store \<Rightarrow> application_user \<Rightarrow> nat" where
  "owner_count s u =
     length (filter (\<lambda>b. is_completed_paid b \<and> bookingUser b = user_id u) (bookings s))"

text \<open>The report's store with another joining date for the first user.\<close>

definition store_report_rejoined :: store where
  "store_report_rejoined = store_report\<lparr>users := [U1\<lparr>dateJoined := 100\<rparr>, U2, U3]\<rparr>"

section \<open>Auxiliary facts\<close>

lemmas example_defs =
  U1_def B1_def B1_served_def B1_paid_def store1_def store_served_def store_paid_def
  store_orphan_def
  mark_served_def zero_charges_def no_fields_def foo_only_def

lemmas service_defs =
  updateBooking_def updateBooking_check_def updateBooking_commit_def buildUpdateQuery_def
  getOneWhere_def updateOneById_def populateUser_def eligibilityFilter_def matches_def
  object_keys_def recognized_keys_def property_value_def truthy_string_def truthy_number_def
  truthy_bool_def to_double_def applyUpdate_def set_field_def math_ceil_def Let_def

lemmas error_defs =
  ValidationError_def NotEligibleError_def InvalidTransitionError_def CouldNotUpdate_def

lemma round_half_even_int [simp]: "round_half_even (of_int z) = z"
  by (simp add: round_half_even_def)

lemma floor_log2_int:
  assumes "1 \<le> a"
  shows "floor_log2 (of_int a) = bitlen a - 1"
  using assms by (simp add: floor_log2_def)

text \<open>Integers below \<open>2 ^ 53\<close> in magnitude are doubles, so sums of small integers are exact.\<close>

lemma to_double_int:
  assumes "\<bar>n\<bar> < 2 ^ 53"
  shows "to_double (of_int n) = of_int n"
proof (cases "n = 0")
  case True
  then show ?thesis by (simp add: to_double_def)
next
  case False
  define a where "a = \<bar>n\<bar>"
  have a1: "1 \<le> a" and a53: "a < 2 ^ 53" using False assms by (simp_all add: a_def)
  define E where "E = bitlen a - 1"
  have bl: "1 \<le> bitlen a"
    using a1 bitlen_eq_zero_iff[of a] bitlen_nonneg[of a] by linarith
  have E0: "0 \<le> E" using bl by (simp add: E_def)
  have "2 ^ nat E \<le> a"
    using bitlen_bounds[of a] a1 by (simp add: E_def)
  with a53 have lt: "(2::int) ^ nat E < 2 ^ 53" by linarith
  have "nat E < 53"
    by (rule power_less_imp_less_exp[OF _ lt]) simp
  then have E52: "E \<le> 52" by linarith
  define k where "k = nat (52 - E)"
  have e: "max (floor_log2 \<bar>of_int n\<bar>) (- 1022) - 52 = E - 52"
  proof -
    have "\<bar>of_int n :: rat\<bar> = of_int a" by (simp add: a_def)
    then have "floor_log2 \<bar>of_int n\<bar> = E"
      using floor_log2_int[OF a1] by (simp add: E_def)
    with E0 show ?thesis by simp
  qed
  have p: "pow2 (E - 52) = 1 / 2 ^ k"
  proof (cases "E = 52")
    case True
    then show ?thesis by (simp add: pow2_def k_def)
  next
    case False
    with E52 have "E - 52 < 0" by simp
    then show ?thesis by (simp add: pow2_def k_def)
  qed
  have q: "\<bar>of_int n :: rat\<bar> / pow2 (E - 52) = of_int (a * 2 ^ k)"
    by (simp add: p a_def)
  have m: "round_half_even (\<bar>of_int n :: rat\<bar> / pow2 (E - 52)) = a * 2 ^ k"
    by (simp only: q round_half_even_int)
  have "to_double (of_int n)
      = sgn (of_int n) * of_int (round_half_even (\<bar>of_int n :: rat\<bar> / pow2 (E - 52)))
          * pow2 (E - 52)"
    unfolding to_double_def Let_def e using False by simp
  also have "\<dots> = sgn (of_int n) * of_int (a * 2 ^ k) * (1 / 2 ^ k)"
    by (subst m) (simp only: p)
  also have "\<dots> = sgn (of_int n) * of_int a"
    by simp
  also have "\<dots> = of_int n"
    by (simp add: a_def sgn_if)
  finally show ?thesis .
qed


lemma js_add_int:
  assumes "\<bar>a\<bar> < 2 ^ 52" "\<bar>b\<bar> < 2 ^ 52"
  shows "js_add (of_int a) (of_int b) = of_int (a + b)"
proof -
  have a: "\<bar>a\<bar> < 2 ^ 53" and b: "\<bar>b\<bar> < 2 ^ 53" and ab: "\<bar>a + b\<bar> < 2 ^ 53"
    using assms by simp_all
  have "js_add (of_int a) (of_int b) = to_double (of_int (a + b))"
    by (simp only: js_add_def to_double_int[OF a] to_double_int[OF b] of_int_add)
  then show ?thesis by (simp only: to_double_int[OF ab])
qed

lemma js_sub_int:
  assumes "\<bar>a\<bar> < 2 ^ 52" "\<bar>b\<bar> < 2 ^ 52"
  shows "js_sub (of_int a) (of_int b) = of_int (a - b)"
proof -
  have a: "\<bar>a\<bar> < 2 ^ 53" and b: "\<bar>b\<bar> < 2 ^ 53" and ab: "\<bar>a - b\<bar> < 2 ^ 53"
    using assms by simp_all
  have "js_sub (of_int a) (of_int b) = to_double (of_int (a - b))"
    by (simp only: js_sub_def to_double_int[OF a] to_double_int[OF b] of_int_diff)
  then show ?thesis by (simp only: to_double_int[OF ab])
qed

lemma double_total_exact_on_integers:
  assumes "\<bar>p\<bar> < 2 ^ 50" "\<bar>c\<bar> < 2 ^ 50" "\<bar>s\<bar> < 2 ^ 50" "\<bar>d\<bar> < 2 ^ 50"
  shows "math_ceil (js_sub (js_add (js_add (of_int p) (of_int c)) (of_int s)) (of_int d))
           = math_ceil (of_int p + of_int c + of_int s - of_int d)"
proof -
  have 1: "js_add (of_int p) (of_int c) = of_int (p + c)"
    using assms by (intro js_add_int) simp_all
  have 2: "js_add (of_int (p + c)) (of_int s) = of_int (p + c + s)"
    using assms by (intro js_add_int) simp_all
  have 3: "js_sub (of_int (p + c + s)) (of_int d) = of_int (p + c + s - d)"
    using assms by (intro js_sub_int) simp_all
  have "js_sub (js_add (js_add (of_int p) (of_int c)) (of_int s)) (of_int d)
      = of_int (p + c + s - d)"
    by (simp only: 1 2 3)
  then show ?thesis by simp
qed

lemma matches_eligibilityFilter:
  "matches (eligibilityFilter i) b \<longleftrightarrow> booking_id b = i \<and> eligible b"
  by (auto simp: matches_def eligibilityFilter_def eligible_def)

lemma find_unique:
  "distinct (map f xs) \<Longrightarrow> x \<in> set xs \<Longrightarrow> P x \<Longrightarrow> (\<And>y. P y \<Longrightarrow> f y = f x)
     \<Longrightarrow> find P xs = Some x"
proof (induction xs)
  case Nil
  from Nil.prems(2) show ?case by simp
next
  case (Cons a xs)
  show ?case
  proof (cases "a = x")
    case True
    with Cons.prems(3) show ?thesis by simp
  next
    case False
    with Cons.prems(2) have xin: "x \<in> set xs" by simp
    have "\<not> P a"
    proof
      assume "P a"
      then have "f a = f x" using Cons.prems(4) by blast
      moreover have "f a \<notin> f ` set xs" using Cons.prems(1) by simp
      ultimately show False using xin by force
    qed
    moreover have "find P xs = Some x"
      using Cons.prems(1) by (intro Cons.IH xin Cons.prems(3) Cons.prems(4)) simp_all
    ultimately show ?thesis by simp
  qed
qed

lemma getOneWhere_eligible:
  assumes "unique_ids s" "b \<in> set (bookings s)" "eligible b"
  shows "getOneWhere s (eligibilityFilter (booking_id b)) = Some (b, populateUser s b)"
proof -
  have "find (matches (eligibilityFilter (booking_id b))) (bookings s) = Some b"
    using assms
    by (intro find_unique[where f = booking_id])
       (auto simp: unique_ids_def matches_eligibilityFilter)
  then show ?thesis by (simp add: getOneWhere_def)
qed

lemma getOneWhere_ineligible:
  assumes "\<forall>b\<in>set (bookings s). booking_id b = i \<longrightarrow> \<not> eligible b"
  shows "getOneWhere s (eligibilityFilter i) = None"
proof -
  have "find (matches (eligibilityFilter i)) (bookings s) = None"
    using assms by (auto simp: find_None_iff matches_eligibilityFilter)
  then show ?thesis by (simp add: getOneWhere_def)
qed

lemma booking_id_applyUpdate [simp]: "booking_id (applyUpdate q b) = booking_id b"
  by (simp add: applyUpdate_def)

lemma updateFirst_unique:
  "distinct (map booking_id bs) \<Longrightarrow>
     updateFirst i q bs = map (\<lambda>x. if booking_id x = i then applyUpdate q x else x) bs"
proof (induction bs)
  case Nil
  show ?case by simp
next
  case (Cons b bs)
  show ?case
  proof (cases "booking_id b = i")
    case True
    have "booking_id b \<notin> booking_id ` set bs" using Cons.prems by simp
    with True have "\<forall>x\<in>set bs. booking_id x \<noteq> i" by blast
    then have "map (\<lambda>x. if booking_id x = i then applyUpdate q x else x) bs = bs"
      by (simp add: map_idI)
    with True show ?thesis by simp
  next
    case False
    with Cons show ?thesis by simp
  qed
qed

lemma check_found:
  assumes "unique_ids s" "b \<in> set (bookings s)" "eligible b" "1 \<le> object_keys dto"
  shows "updateBooking_check s (booking_id b) dto a now =
     (case buildUpdateQuery b dto a now of
        Inl e \<Rightarrow> (Inl e, [GetOneWhereCall (eligibilityFilter (booking_id b))])
      | Inr q \<Rightarrow>
          (Inr \<lparr> currentBooking = b, currentBookingUser = populateUser s b, updateQuery = q \<rparr>,
           [GetOneWhereCall (eligibilityFilter (booking_id b))]))"
  using assms(4) getOneWhere_eligible[OF assms(1-3)]
  by (simp add: updateBooking_check_def)

lemma updateOneById_unique:
  assumes "unique_ids s" "b \<in> set (bookings s)"
  shows "updateOneById s (booking_id b) q =
     (Some (applyUpdate q b),
      s\<lparr>bookings :=
          map (\<lambda>x. if booking_id x = booking_id b then applyUpdate q x else x) (bookings s)\<rparr>)"
proof -
  have "find (\<lambda>x. booking_id x = booking_id b) (bookings s) = Some b"
    using assms by (intro find_unique[where f = booking_id]) (auto simp: unique_ids_def)
  then show ?thesis
    using assms(1) by (simp add: updateOneById_def updateFirst_unique unique_ids_def)
qed


section \<open>Properties of updateBooking\<close>

lemma object_keys_positive:
  "1 \<le> object_keys dto \<longleftrightarrow>
     dto_cleaningDate dto \<noteq> Absent \<or> dto_remarks dto \<noteq> Absent
       \<or> dto_additionalCharges dto \<noteq> Absent \<or> dto_markAsServed dto \<noteq> Absent
       \<or> (\<exists>k\<in>set (dto_otherKeys dto). k \<notin> set recognized_keys)"
proof -
  let ?other = "remdups (filter (\<lambda>k. k \<notin> set recognized_keys) (dto_otherKeys dto))"
  have "1 \<le> length ?other \<longleftrightarrow> (\<exists>k\<in>set (dto_otherKeys dto). k \<notin> set recognized_keys)"
  proof -
    have "1 \<le> length ?other \<longleftrightarrow> set ?other \<noteq> {}"
      by (cases ?other) simp_all
    then show ?thesis by auto
  qed
  then show ?thesis
    unfolding object_keys_def by (auto split: if_splits)
qed

text \<open>
  C6, as stated, fails in its second part: the guard counts every own key of the patch, so
  the patch \<^verbatim>\<open>{foo: 1}\<close>, which has none of the recognized fields, passes it and the call
  on an eligible booking is accepted (it writes \<^verbatim>\<open>updatedBy\<close> and \<^verbatim>\<open>updatedAt\<close>).
\<close>

theorem updateBooking_unrecognized_key_counterexample:
  "dto_cleaningDate foo_only = Absent \<and> dto_remarks foo_only = Absent
   \<and> dto_additionalCharges foo_only = Absent \<and> dto_markAsServed foo_only = Absent
   \<and> result (updateBooking store1 ''b1'' foo_only ''admin'' 7) =
       Inr \<lparr> response_message = ''Booking updated successfully'',
             response_data = Some (B1\<lparr>updatedBy := ''admin'', updatedAt := 7\<rparr>) \<rparr>
   \<and> bookings (store_after (updateBooking store1 ''b1'' foo_only ''admin'' 7))
       = [B1\<lparr>updatedBy := ''admin'', updatedAt := 7\<rparr>]"
  by (simp add: service_defs example_defs)

text \<open>
  C6, amended. A patch with no own key is refused with the validation failure before any
  store operation: the store is unchanged, no mail is sent and no store primitive is
  called, whatever the booking id and the actor. A call that succeeds carried at least one
  own key: one of \<^verbatim>\<open>cleaningDate\<close>, \<^verbatim>\<open>remarks\<close>, \<^verbatim>\<open>additionalCharges\<close>,
  \<^verbatim>\<open>markAsServed\<close> (with or without a value), or a key of another name.
\<close>

theorem updateBooking_empty_patch:
  "updateBooking s i no_fields a now =
     \<lparr> result = Inl ValidationError, store_after = s, mails_sent = [], store_calls = [] \<rparr>
   \<and> (object_keys dto < 1 \<longrightarrow>
        updateBooking s i dto a now =
          \<lparr> result = Inl ValidationError, store_after = s, mails_sent = [], store_calls = [] \<rparr>)
   \<and> (\<forall>r. result (updateBooking s i dto a now) = Inr r \<longrightarrow>
         dto_cleaningDate dto \<noteq> Absent \<or> dto_remarks dto \<noteq> Absent
           \<or> dto_additionalCharges dto \<noteq> Absent \<or> dto_markAsServed dto \<noteq> Absent
           \<or> (\<exists>k\<in>set (dto_otherKeys dto). k \<notin> set recognized_keys))"
proof (intro conjI allI impI)
  show "updateBooking s i no_fields a now =
     \<lparr> result = Inl ValidationError, store_after = s, mails_sent = [], store_calls = [] \<rparr>"
    by (simp add: updateBooking_def updateBooking_check_def object_keys_def no_fields_def)
next
  assume "object_keys dto < 1"
  then show "updateBooking s i dto a now =
     \<lparr> result = Inl ValidationError, store_after = s, mails_sent = [], store_calls = [] \<rparr>"
    by (simp add: updateBooking_def updateBooking_check_def)
next
  fix r
  assume ok: "result (updateBooking s i dto a now) = Inr r"
  have "\<not> object_keys dto < 1"
  proof
    assume "object_keys dto < 1"
    then have "result (updateBooking s i dto a now) = Inl ValidationError"
      by (simp add: updateBooking_def updateBooking_check_def)
    with ok show False by simp
  qed
  then have "1 \<le> object_keys dto" by simp
  then show "dto_cleaningDate dto \<noteq> Absent \<or> dto_remarks dto \<noteq> Absent
           \<or> dto_additionalCharges dto \<noteq> Absent \<or> dto_markAsServed dto \<noteq> Absent
           \<or> (\<exists>k\<in>set (dto_otherKeys dto). k \<notin> set recognized_keys)"
    by (simp only: object_keys_positive)
qed

theorem updateBooking_empty_patch_witness:
  "result (updateBooking store1 ''b1'' foo_only ''admin'' 7) =
     Inr \<lparr> response_message = ''Booking updated successfully'',
           response_data = Some (B1\<lparr>updatedBy := ''admin'', updatedAt := 7\<rparr>) \<rparr>
   \<and> dto_cleaningDate foo_only = Absent \<and> dto_remarks foo_only = Absent
   \<and> dto_additionalCharges foo_only = Absent \<and> dto_markAsServed foo_only = Absent
   \<and> (\<exists>k\<in>set (dto_otherKeys foo_only). k \<notin> set recognized_keys)
   \<and> object_keys no_fields < 1
   \<and> updateBooking store1 ''b1'' no_fields ''admin'' 7 =
       \<lparr> result = Inl ValidationError, store_after = store1, mails_sent = [], store_calls = [] \<rparr>"
proof -
  have ok: "result (updateBooking store1 ''b1'' foo_only ''admin'' 7) =
     Inr \<lparr> response_message = ''Booking updated successfully'',
           response_data = Some (B1\<lparr>updatedBy := ''admin'', updatedAt := 7\<rparr>) \<rparr>"
    by (simp add: service_defs example_defs)
  have ab: "dto_cleaningDate foo_only = Absent \<and> dto_remarks foo_only = Absent
      \<and> dto_additionalCharges foo_only = Absent \<and> dto_markAsServed foo_only = Absent"
    by (simp add: example_defs)
  have "dto_cleaningDate foo_only \<noteq> Absent \<or> dto_remarks foo_only \<noteq> Absent
      \<or> dto_additionalCharges foo_only \<noteq> Absent \<or> dto_markAsServed foo_only \<noteq> Absent
      \<or> (\<exists>k\<in>set (dto_otherKeys foo_only). k \<notin> set recognized_keys)"
    using updateBooking_empty_patch [of store1 "''b1''" "''admin''" 7 foo_only] ok by blast
  with ab have k: "\<exists>k\<in>set (dto_otherKeys foo_only). k \<notin> set recognized_keys"
    by blast
  have e: "object_keys no_fields < 1"
    by (simp add: object_keys_def no_fields_def)
  have v: "updateBooking store1 ''b1'' no_fields ''admin'' 7 =
       \<lparr> result = Inl ValidationError, store_after = store1, mails_sent = [], store_calls = [] \<rparr>"
    using updateBooking_empty_patch [of store1 "''b1''" "''admin''" 7 no_fields] e by blast
  from ok ab k e v show ?thesis by (intro conjI) simp_all
qed

text \<open>
  C1, as stated, fails for the empty patch: on a booking that is ineligible (payment and
  delivery Completed) the call fails with the validation error, not with the eligibility
  error.
\<close>

theorem updateBooking_ineligible_empty_patch_counterexample:
  "\<not> eligible B1_paid
   \<and> result (updateBooking store_paid (booking_id B1_paid) no_fields ''admin'' 7)
       = Inl ValidationError
   \<and> ValidationError \<noteq> NotEligibleError (booking_id B1_paid)"
  by (simp add: service_defs example_defs error_defs eligible_def)

text \<open>
  C1, amended. When every stored booking with the given id is ineligible for mutation
  (inactive, or delivery status Cancelled or Completed, or payment Completed), every call
  with a patch that has at least one field fails with the eligibility error, whose
  message ends with the booking id; the store is unchanged, so in particular the delivery
  status of a booking whose payment is Completed is not changed; no mail is sent.
\<close>

theorem updateBooking_ineligible:
  assumes "1 \<le> object_keys dto"
    and "\<forall>b\<in>set (bookings s). booking_id b = i \<longrightarrow> \<not> eligible b"
  shows "result (updateBooking s i dto a now) = Inl (NotEligibleError i)
    \<and> (\<exists>pre. message (NotEligibleError i) = pre @ i)
    \<and> store_after (updateBooking s i dto a now) = s
    \<and> mails_sent (updateBooking s i dto a now) = []"
  using assms(1) getOneWhere_ineligible[OF assms(2)]
  by (simp add: updateBooking_def updateBooking_check_def NotEligibleError_def message_def)

theorem updateBooking_ineligible_witness:
  "1 \<le> object_keys mark_served
   \<and> bookings store_paid = [B1_paid] \<and> \<not> eligible B1_paid \<and> booking_id B1_paid = ''b1''
   \<and> result (updateBooking store_paid ''b1'' mark_served ''admin'' 7)
       = Inl (BadRequestException ''No active booking found with id: b1'')
   \<and> store_after (updateBooking store_paid ''b1'' mark_served ''admin'' 7) = store_paid"
proof -
  have k: "1 \<le> object_keys mark_served"
    by (simp add: object_keys_def example_defs)
  have inel: "\<forall>b\<in>set (bookings store_paid). booking_id b = ''b1'' \<longrightarrow> \<not> eligible b"
    by (simp add: example_defs eligible_def)
  have mem: "bookings store_paid = [B1_paid] \<and> \<not> eligible B1_paid \<and> booking_id B1_paid = ''b1''"
    by (simp add: example_defs eligible_def)
  from updateBooking_ineligible [OF k inel, of "''admin''" 7] k mem
  show ?thesis by (simp add: NotEligibleError_def)
qed

text \<open>
  C3. For an eligible booking whose delivery status is not Initiated, a call whose patch
  has \<^verbatim>\<open>markAsServed = true\<close> fails with the invalid-transition error and writes
  nothing: the store is unchanged and no mail is sent, whatever else the patch carries.
\<close>

theorem updateBooking_served_twice:
  assumes "unique_ids s" and "b \<in> set (bookings s)" and "eligible b"
    and "bookingStatus b \<noteq> BookingInitiated"
    and "dto_markAsServed dto = Value True"
  shows "result (updateBooking s (booking_id b) dto a now) = Inl InvalidTransitionError
    \<and> store_after (updateBooking s (booking_id b) dto a now) = s
    \<and> mails_sent (updateBooking s (booking_id b) dto a now) = []"
proof -
  have k: "1 \<le> object_keys dto"
    using assms(5) by (simp add: object_keys_def)
  have q: "buildUpdateQuery b dto a now = Inl InvalidTransitionError"
    using assms(4,5) by (simp add: buildUpdateQuery_def truthy_bool_def Let_def)
  show ?thesis
    using check_found[OF assms(1-3) k, of a now] q
    by (simp add: updateBooking_def)
qed

theorem updateBooking_served_twice_witness:
  "unique_ids store_served \<and> B1_served \<in> set (bookings store_served) \<and> eligible B1_served
   \<and> bookingStatus B1_served \<noteq> BookingInitiated
   \<and> dto_markAsServed (mark_served\<lparr>dto_cleaningDate := Value ''2024-06-01''\<rparr>) = Value True
   \<and> result (updateBooking store_served (booking_id B1_served)
               (mark_served\<lparr>dto_cleaningDate := Value ''2024-06-01''\<rparr>) ''admin'' 7)
       = Inl (BadRequestException ''Booking status is not eligible for update'')
   \<and> store_after (updateBooking store_served (booking_id B1_served)
               (mark_served\<lparr>dto_cleaningDate := Value ''2024-06-01''\<rparr>) ''admin'' 7)
       = store_served"
proof -
  have u: "unique_ids store_served" by (simp add: unique_ids_def example_defs)
  have m: "B1_served \<in> set (bookings store_served)" by (simp add: example_defs)
  have e: "eligible B1_served" by (simp add: eligible_def example_defs)
  have n: "bookingStatus B1_served \<noteq> BookingInitiated" by (simp add: example_defs)
  have d: "dto_markAsServed (mark_served\<lparr>dto_cleaningDate := Value ''2024-06-01''\<rparr>) = Value True"
    by (simp add: example_defs)
  from updateBooking_served_twice [OF u m e n d, of "''admin''" 7] u m e n d
  show ?thesis by (simp add: InvalidTransitionError_def)
qed




text \<open>
  C2, at the patch \<^verbatim>\<open>{additionalCharges: 0}\<close>: the call on the scenario's booking
  (price 100, supplies 10, discount 5, stored charge 20 and total 125) is accepted, and the
  stored charge and total stay 20 and 125, while the total for a charge of 0 is 105. The
  test \<^verbatim>\<open>if (bookingUpdateDto.additionalCharges)\<close> is false for the number 0.
\<close>

theorem updateBooking_zero_charges:
  "result (updateBooking store1 ''b1'' zero_charges ''admin'' 7) =
     Inr \<lparr> response_message = ''Booking updated successfully'',
           response_data = Some (B1\<lparr>updatedBy := ''admin'', updatedAt := 7\<rparr>) \<rparr>
   \<and> map additionalCharges
        (bookings (store_after (updateBooking store1 ''b1'' zero_charges ''admin'' 7))) = [20]
   \<and> map totalAmount
        (bookings (store_after (updateBooking store1 ''b1'' zero_charges ''admin'' 7))) = [125]
   \<and> math_ceil (cleaningPrice B1 + 0 + suppliesCharges B1 - discountAmount B1) = 105
   \<and> math_ceil (js_sub (js_add (js_add (cleaningPrice B1) 0) (suppliesCharges B1))
                  (discountAmount B1)) = 105"
proof -
  have exact: "math_ceil (js_sub (js_add (js_add 100 0) 10) 5) = 105"
    by code_simp
  then have "math_ceil (js_sub (js_add (js_add (cleaningPrice B1) 0) (suppliesCharges B1))
                  (discountAmount B1)) = 105"
    by (simp add: B1_def)
  then show ?thesis
    by (simp add: service_defs example_defs)
qed

text \<open>
  A patch whose additional charge is not 0 does recompute the total, from the stored price,
  supplies charge and discount and the new charge, in the arithmetic of doubles. At the
  values \<^verbatim>\<open>20 + 4.1 + 0 - 10.1\<close> the doubles give a sum just above 14 and the total 15,
  where exact arithmetic gives 14; on integer amounts below \<open>2 ^ 50\<close> in magnitude, such
  as the scenario's, the two agree (\<open>double_total_exact_on_integers\<close>).
\<close>

lemma updateBooking_recomputes_total:
  assumes u: "unique_ids s" and b: "b \<in> set (bookings s)" and e: "eligible b"
    and c: "dto_additionalCharges dto = Value c" and nz: "to_double c \<noteq> 0"
    and ok: "result (updateBooking s (booking_id b) dto a now) = Inr r"
  shows "\<forall>b'\<in>set (bookings (store_after (updateBooking s (booking_id b) dto a now))).
           booking_id b' = booking_id b \<longrightarrow>
             additionalCharges b' = c
             \<and> totalAmount b' =
                 math_ceil (js_sub (js_add (js_add (cleaningPrice b) c) (suppliesCharges b))
                              (discountAmount b))"
proof -
  have k: "1 \<le> object_keys dto" using c by (simp add: object_keys_def)
  obtain q where q: "buildUpdateQuery b dto a now = Inr q"
    using ok check_found[OF u b e k, of a now]
    by (cases "buildUpdateQuery b dto a now") (simp_all add: updateBooking_def)
  have qc: "q_additionalCharges q = Some c
      \<and> q_totalAmount q =
          Some (math_ceil (js_sub (js_add (js_add (cleaningPrice b) c) (suppliesCharges b))
                             (discountAmount b)))"
    using q c nz
    by (auto simp: buildUpdateQuery_def truthy_number_def property_value_def Let_def
             split: if_splits)
  have st: "bookings (store_after (updateBooking s (booking_id b) dto a now)) =
      map (\<lambda>x. if booking_id x = booking_id b then applyUpdate q x else x) (bookings s)"
    using check_found[OF u b e k, of a now] q updateOneById_unique[OF u b, of q]
    by (simp add: updateBooking_def updateBooking_commit_def Let_def)
  have "additionalCharges (applyUpdate q x) = c
      \<and> totalAmount (applyUpdate q x) =
          math_ceil (js_sub (js_add (js_add (cleaningPrice b) c) (suppliesCharges b))
                       (discountAmount b))" for x
    using qc by (simp add: applyUpdate_def set_field_def)
  then show ?thesis unfolding st by (auto split: if_splits)
qed

lemma double_total_examples:
  "math_ceil (js_sub (js_add (js_add 20 (41 / 10)) 0) (101 / 10)) = 15
   \<and> math_ceil (20 + 41 / 10 + 0 - 101 / 10 :: rat) = 14
   \<and> math_ceil (js_sub (js_add (js_add 100 20) 10) 5) = 125
   \<and> js_add (1 / 10) (2 / 10) = 5404319552844596 / 2 ^ 54"
  by code_simp

text \<open>
  C4, as stated, fails. The call \<^verbatim>\<open>updateBooking("b1", {markAsServed: true}, "admin")\<close>
  reads the booking \<open>B1\<close> from \<open>store1\<close> through the eligibility filter and passes the
  check. When another writer completes the booking before the write (the store is then
  \<open>store_paid\<close>, where the booking is not eligible), the write still goes through: the
  call succeeds and moves the delivery status of the paid booking from Completed to Served.
\<close>

theorem updateBooking_interleaved_counterexample:
  "updateBooking_check store1 ''b1'' mark_served ''admin'' 7
     = (Inr pending_served, [GetOneWhereCall (eligibilityFilter ''b1'')])
   \<and> bookings store_paid = [B1_paid] \<and> \<not> eligible B1_paid
   \<and> result (updateBooking_commit store_paid pending_served mark_served)
       = Inr \<lparr> response_message = ''Booking updated successfully'',
               response_data = Some (B1_paid\<lparr>bookingStatus := BookingServed,
                                             updatedBy := ''admin'', updatedAt := 7\<rparr>) \<rparr>
   \<and> bookings (store_after (updateBooking_commit store_paid pending_served mark_served))
       = [B1_paid\<lparr>bookingStatus := BookingServed, updatedBy := ''admin'', updatedAt := 7\<rparr>]
   \<and> store_calls (updateBooking store1 ''b1'' mark_served ''admin'' 7)
       = [GetOneWhereCall (eligibilityFilter ''b1''),
          UpdateOneByIdCall ''b1'' (updateQuery pending_served)]"
  by (simp add: service_defs example_defs pending_served_def eligible_def)

lemma updateBooking_check_id:
  assumes "fst (updateBooking_check s i dto a now) = Inr p"
  shows "booking_id (currentBooking p) = i
    \<and> snd (updateBooking_check s i dto a now) = [GetOneWhereCall (eligibilityFilter i)]"
proof (cases "find (matches (eligibilityFilter i)) (bookings s)")
  case None
  with assms show ?thesis
    by (simp add: updateBooking_check_def getOneWhere_def split: if_splits)
next
  case (Some cur)
  then have "matches (eligibilityFilter i) cur"
    by (auto simp: find_Some_iff)
  then have "booking_id cur = i"
    by (simp add: matches_eligibilityFilter)
  with assms Some show ?thesis
    by (auto simp: updateBooking_check_def getOneWhere_def split: if_splits sum.splits)
qed

text \<open>
  C4, amended. The eligibility check and the write are two separate store operations: a
  call that passes the check makes one read through the eligibility filter
  (\<^verbatim>\<open>getOneWhere\<close>) followed by one write keyed on the booking id alone
  (\<^verbatim>\<open>updateOneById\<close>). The write does not check eligibility again: in whatever state
  \<open>s'\<close> the store is when the write runs, every booking with that id receives the update.
\<close>

theorem updateBooking_read_then_write:
  assumes "fst (updateBooking_check s i dto a now) = Inr p"
    and "unique_ids s'"
    and "b' \<in> set (bookings s')"
    and "booking_id b' = i"
  shows "store_calls (updateBooking s i dto a now)
           = [GetOneWhereCall (eligibilityFilter i), UpdateOneByIdCall i (updateQuery p)]
    \<and> bookings (store_after (updateBooking_commit s' p dto))
        = map (\<lambda>x. if booking_id x = i then applyUpdate (updateQuery p) x else x) (bookings s')
    \<and> applyUpdate (updateQuery p) b' \<in> set (bookings (store_after (updateBooking_commit s' p dto)))"
proof -
  have idp: "booking_id (currentBooking p) = i"
    and calls: "snd (updateBooking_check s i dto a now) = [GetOneWhereCall (eligibilityFilter i)]"
    using updateBooking_check_id[OF assms(1)] by simp_all
  have chk: "updateBooking_check s i dto a now = (Inr p, [GetOneWhereCall (eligibilityFilter i)])"
    using assms(1) calls by (simp add: prod_eq_iff)
  have c1: "store_calls (updateBooking s i dto a now)
           = [GetOneWhereCall (eligibilityFilter i), UpdateOneByIdCall i (updateQuery p)]"
    using chk idp
    by (simp add: updateBooking_def updateBooking_commit_def Let_def split: prod.splits)
  have c2: "bookings (store_after (updateBooking_commit s' p dto))
        = map (\<lambda>x. if booking_id x = i then applyUpdate (updateQuery p) x else x) (bookings s')"
    using updateOneById_unique[OF assms(2,3), of "updateQuery p"] idp assms(4)
    by (simp add: updateBooking_commit_def Let_def)
  have c3: "applyUpdate (updateQuery p) b'
      \<in> set (map (\<lambda>x. if booking_id x = i then applyUpdate (updateQuery p) x else x) (bookings s'))"
    using assms(3,4) by (auto simp: image_iff intro!: bexI[where x = b'])
  show ?thesis using c1 c2 c3 by simp
qed

theorem updateBooking_read_then_write_witness:
  "fst (updateBooking_check store1 ''b1'' mark_served ''admin'' 7) = Inr pending_served
   \<and> unique_ids store_paid \<and> B1_paid \<in> set (bookings store_paid) \<and> booking_id B1_paid = ''b1''
   \<and> store_calls (updateBooking store1 ''b1'' mark_served ''admin'' 7)
       = [GetOneWhereCall (eligibilityFilter ''b1''),
          UpdateOneByIdCall ''b1'' (updateQuery pending_served)]
   \<and> applyUpdate (updateQuery pending_served) B1_paid
       \<in> set (bookings (store_after (updateBooking_commit store_paid pending_served mark_served)))"
proof -
  have c: "fst (updateBooking_check store1 ''b1'' mark_served ''admin'' 7) = Inr pending_served"
    by (simp add: service_defs example_defs pending_served_def)
  have u: "unique_ids store_paid" by (simp add: unique_ids_def example_defs)
  have m: "B1_paid \<in> set (bookings store_paid)" by (simp add: example_defs)
  have i: "booking_id B1_paid = ''b1''" by (simp add: example_defs)
  from updateBooking_read_then_write [OF c u m i] c u m i
  show ?thesis by simp
qed

section \<open>Properties of the listing and of the reports\<close>

lemmas report_defs =
  U1_def U2_def U3_def B1_def B1_paid_def B2_def B3_def B4_def B5_def B6_def
  store_report_def store_report_edited_def bob_def first_page_def

lemma matches_completedPaid: "matches completedPaid b \<longleftrightarrow> is_completed_paid b"
  by (simp add: matches_def completedPaid_def is_completed_paid_def)

lemma matches_completedPaid_eq: "matches completedPaid = is_completed_paid"
  by (rule ext) (simp add: matches_completedPaid)

lemma sum_list_map_mset_cong:
  fixes g :: "'a \<Rightarrow> rat"
  assumes "mset xs = mset ys"
  shows "sum_list (map g xs) = sum_list (map g ys)"
proof -
  have "sum_list (map g xs) = sum_mset (image_mset g (mset xs))"
    by (metis mset_map sum_mset_sum_list)
  also have "\<dots> = sum_mset (image_mset g (mset ys))"
    using assms by simp
  also have "\<dots> = sum_list (map g ys)"
    by (metis mset_map sum_mset_sum_list)
  finally show ?thesis .
qed

lemma getTotalBookingEarnings_filter:
  "getTotalBookingEarnings s =
     sum_list (map totalAmount (filter is_completed_paid (bookings s)))"
proof -
  let ?sorted = "sort_key (\<lambda>b. - createdAt b) (bookings s)"
  have "getTotalBookingEarnings s = sum_list (map totalAmount (filter is_completed_paid ?sorted))"
    by (cases "filter is_completed_paid ?sorted")
       (simp_all add: getTotalBookingEarnings_def matches_completedPaid_eq Let_def)
  moreover have "mset (filter is_completed_paid ?sorted) = mset (filter is_completed_paid (bookings s))"
    by simp
  ultimately show ?thesis
    using sum_list_map_mset_cong by metis
qed

text \<open>
  C7. The total earnings are the sum of \<^verbatim>\<open>totalAmount\<close> over the bookings that are
  completed and paid. Two stores with the same completed and paid bookings (in any order)
  report the same total: the other bookings and their fields have no effect.
\<close>

theorem getTotalBookingEarnings_sum:
  "getTotalBookingEarnings s =
     sum_list (map totalAmount (filter is_completed_paid (bookings s)))
   \<and> (\<forall>s' :: store. mset (filter is_completed_paid (bookings s'))
               = mset (filter is_completed_paid (bookings s))
           \<longrightarrow> getTotalBookingEarnings s' = getTotalBookingEarnings s)"
proof (intro conjI allI impI)
  show "getTotalBookingEarnings s =
     sum_list (map totalAmount (filter is_completed_paid (bookings s)))"
    by (rule getTotalBookingEarnings_filter)
next
  fix s' :: store
  assume "mset (filter is_completed_paid (bookings s'))
            = mset (filter is_completed_paid (bookings s))"
  then show "getTotalBookingEarnings s' = getTotalBookingEarnings s"
    unfolding getTotalBookingEarnings_filter by (rule sum_list_map_mset_cong)
qed

theorem getTotalBookingEarnings_sum_witness:
  "filter is_completed_paid (bookings store_report) = [B2, B3, B4, B5, B6]
   \<and> mset (filter is_completed_paid (bookings store_report_edited))
       = mset (filter is_completed_paid (bookings store_report))
   \<and> bookings store_report_edited \<noteq> bookings store_report
   \<and> getTotalBookingEarnings store_report = 335
   \<and> getTotalBookingEarnings store_report_edited = getTotalBookingEarnings store_report"
proof -
  have f: "filter is_completed_paid (bookings store_report) = [B2, B3, B4, B5, B6]"
    by (simp add: report_defs is_completed_paid_def)
  have f': "filter is_completed_paid (bookings store_report_edited) = [B2, B3, B4, B5, B6]"
    by (simp add: report_defs is_completed_paid_def)
  have ne: "bookings store_report_edited \<noteq> bookings store_report"
    by (simp add: report_defs)
  have t: "sum_list (map totalAmount [B2, B3, B4, B5, B6]) = 335"
    by (simp add: report_defs)
  have m: "mset (filter is_completed_paid (bookings store_report_edited))
       = mset (filter is_completed_paid (bookings store_report))"
    by (simp only: f f')
  note inst = getTotalBookingEarnings_sum [of store_report]
  have e: "getTotalBookingEarnings store_report_edited = getTotalBookingEarnings store_report"
    using inst [THEN conjunct2, THEN spec, of store_report_edited] m by (rule mp)
  have v: "getTotalBookingEarnings store_report = 335"
    using inst [THEN conjunct1] by (simp only: f t)
  from f m ne v e show ?thesis by (intro conjI)
qed

lemma set_getAll:
  assumes "getAll s q limit skip populate = Inr found"
  shows "set found \<subseteq> populate s ` {b \<in> set (bookings s). matches q b}"
proof -
  let ?m = "drop (nat skip) (filter (matches q) (bookings s))"
  have "set ?m \<subseteq> {b \<in> set (bookings s). matches q b}"
    using set_drop_subset[of "nat skip" "filter (matches q) (bookings s)"] by auto
  moreover have "set (take limit ?m) \<subseteq> set ?m"
    by (rule set_take_subset)
  ultimately have "set (if limit = 0 then ?m else take limit ?m)
      \<subseteq> {b \<in> set (bookings s). matches q b}"
    by auto
  moreover have "found = map (populate s) (if limit = 0 then ?m else take limit ?m)"
    using assms by (auto simp: getAll_def Let_def split: if_splits)
  ultimately show ?thesis by auto
qed

lemma searchQuery_non_admin:
  assumes "userRole tok \<noteq> ADMIN"
  shows "searchQuery x tok =
     [BookingStatus_eq BookingCompleted, PaymentStatus_eq PaymentCompleted,
      BookingUser_eq (userId tok)]"
  using assms by (simp add: searchQuery_def)

text \<open>
  C9. For a caller whose role is not ADMIN the listing does not depend on the
  \<^verbatim>\<open>BookingUserId\<close> of the query, and every booking it returns is owned by the caller.
\<close>

theorem getAllPaidBooking_non_admin:
  fixes dto :: list_cleaning_booking_query_dto
  assumes "userRole tok \<noteq> ADMIN"
  shows "getAllPaidBooking s (dto\<lparr>BookingUserId := x\<rparr>) tok
           = getAllPaidBooking s (dto\<lparr>BookingUserId := y\<rparr>) tok
    \<and> (\<forall>r. getAllPaidBooking s dto tok = Inr r \<longrightarrow>
          (\<forall>v\<in>set (data r). bookingUser (listed_doc v) = userId tok))"
proof (intro conjI allI impI ballI)
  show "getAllPaidBooking s (dto\<lparr>BookingUserId := x\<rparr>) tok
           = getAllPaidBooking s (dto\<lparr>BookingUserId := y\<rparr>) tok"
    by (simp add: getAllPaidBooking_def searchQuery_non_admin[OF assms])
next
  fix r v
  assume ok: "getAllPaidBooking s dto tok = Inr r" and v: "v \<in> set (data r)"
  let ?q = "[BookingStatus_eq BookingCompleted, PaymentStatus_eq PaymentCompleted,
      BookingUser_eq (userId tok)]"
  obtain limit skip where "getAll s ?q limit skip populateListed = Inr (data r)"
    using ok
    by (auto simp: getAllPaidBooking_def searchQuery_non_admin[OF assms] Let_def
             split: sum.splits)
  from set_getAll[OF this] v
  obtain b where "matches ?q b" and "v = populateListed s b" by auto
  then show "bookingUser (listed_doc v) = userId tok"
    by (simp add: matches_def populateListed_def)
qed

theorem getAllPaidBooking_non_admin_witness:
  "userRole bob \<noteq> ADMIN
   \<and> getAllPaidBooking store_report (first_page\<lparr>BookingUserId := Some ''u1''\<rparr>) bob
       = getAllPaidBooking store_report (first_page\<lparr>BookingUserId := None\<rparr>) bob
   \<and> getAllPaidBooking store_report first_page bob
       = Inr \<lparr> totalRecords = 1, page = 1, pageSize = 10,
               data = [populateListed store_report B3] \<rparr>
   \<and> bookingUser (listed_doc (populateListed store_report B3)) = userId bob"
proof -
  have r: "userRole bob \<noteq> ADMIN" by (simp add: bob_def)
  have d: "getAllPaidBooking store_report first_page bob =
      Inr \<lparr> totalRecords = 1, page = 1, pageSize = 10, data = [populateListed store_report B3] \<rparr>"
    by (simp add: getAllPaidBooking_def searchQuery_def getAll_def count_docs_def matches_def
          report_defs Let_def)
  note inst = getAllPaidBooking_non_admin
    [OF r, where s = store_report and dto = first_page and x = "Some ''u1''" and y = None]
  have e: "getAllPaidBooking store_report (first_page\<lparr>BookingUserId := Some ''u1''\<rparr>) bob
       = getAllPaidBooking store_report (first_page\<lparr>BookingUserId := None\<rparr>) bob"
    using inst by (rule conjunct1)
  have o: "bookingUser (listed_doc (populateListed store_report B3)) = userId bob"
    using inst [THEN conjunct2] d by simp
  from r e d o show ?thesis by (intro conjI)
qed

subsection \<open>The top-users report\<close>

lemma snd_unwindStage:
  "map snd (unwindStage (map (\<lambda>b. (b, f b)) xs)) = concat (map f xs)"
  by (induction xs) (simp_all add: unwindStage_def comp_def)

lemma groupStage_keys:
  "groupStage docs =
     map (\<lambda>k. (k, length (filter (\<lambda>x. x = k) (map snd docs)))) (remdups (map snd docs))"
proof -
  have "length (filter (\<lambda>d. snd d = k) docs) = length (filter (\<lambda>x. x = k) (map snd docs))" for k
    by (simp add: filter_map comp_def)
  then show ?thesis by (simp only: groupStage_def)
qed

lemma findTopUsersByBooking_alt:
  "findTopUsersByBooking s =
     map (\<lambda>(k, n). \<lparr> top_bookingUser = k, totalBookingCount = n \<rparr>)
       (take 10 (sortStage
          (map (\<lambda>k. (k, length (filter (\<lambda>x. x = k) (joinedUsers s))))
             (remdups (joinedUsers s)))))"
  unfolding findTopUsersByBooking_def Let_def groupStage_keys snd_unwindStage joinedUsers_def
    matches_completedPaid_eq
  by (rule refl)

lemma set_sortStage [simp]: "set (sortStage gs) = set gs"
  by (simp add: sortStage_def)

lemma sortStage_descending:
  "sorted_wrt (\<lambda>x y. snd y \<le> snd x) (sortStage gs)"
proof -
  have "sorted (map (\<lambda>g. - int (snd g)) (sortStage gs))"
    unfolding sortStage_def by (rule sorted_sort_key)
  then show ?thesis
    by (simp add: sorted_map)
qed

lemma distinct_fst_sortStage:
  "distinct (map fst (sortStage gs)) = distinct (map fst gs)"
proof -
  have "mset (map fst (sortStage gs)) = mset (map fst gs)"
    by (simp add: sortStage_def)
  then show ?thesis by (rule mset_eq_imp_distinct_iff)
qed

lemma filter_unique:
  assumes "distinct (map f xs)" "x \<in> set xs" "P x" "\<And>y. P y \<Longrightarrow> f y = f x"
  shows "filter P xs = [x]"
  using assms(1,2)
proof (induction xs)
  case Nil
  then show ?case by simp
next
  case (Cons a xs)
  show ?case
  proof (cases "a = x")
    case True
    have nx: "f x \<notin> f ` set xs" using Cons.prems(1) True by simp
    have "\<forall>y\<in>set xs. \<not> P y"
    proof (intro ballI notI)
      fix y assume y: "y \<in> set xs" and "P y"
      then have "f y = f x" by (intro assms(4))
      with y have "f x \<in> f ` set xs" by (metis imageI)
      with nx show False by simp
    qed
    then have "filter P xs = []" by (simp add: filter_empty_conv)
    with True assms(3) show ?thesis by simp
  next
    case False
    with Cons.prems(2) have xin: "x \<in> set xs" by simp
    have "f a \<notin> f ` set xs" using Cons.prems(1) by simp
    with xin have "f a \<noteq> f x" by force
    with assms(4) have "\<not> P a" by blast
    moreover have "filter P xs = [x]" using Cons.IH Cons.prems(1) xin by simp
    ultimately show ?thesis by simp
  qed
qed

lemma lookupStage_elem:
  "k \<in> set (lookupStage s b) \<longleftrightarrow>
     (\<exists>u\<in>set (users s). user_isActive u \<and> user_id u = bookingUser b \<and> k = projectUser u)"
  by (auto simp: lookupStage_def)

lemma lookupStage_no_owner:
  "\<not> has_active_owner s b \<Longrightarrow> lookupStage s b = []"
  by (auto simp: lookupStage_def has_active_owner_def filter_empty_conv)

lemma proj_id_projectUser [simp]: "proj_id (projectUser u) = user_id u"
  by (simp add: projectUser_def)

lemma lookupStage_count:
  assumes "unique_user_ids s" "u \<in> set (users s)" "user_isActive u"
  shows "length (filter (\<lambda>x. x = projectUser u) (lookupStage s b))
           = (if bookingUser b = user_id u then 1 else 0)"
proof (cases "bookingUser b = user_id u")
  case True
  have "filter (\<lambda>v. user_isActive v \<and> user_id v = bookingUser b) (users s) = [u]"
    using assms True
    by (intro filter_unique[where f = user_id]) (simp_all add: unique_user_ids_def)
  with True show ?thesis by (simp add: lookupStage_def)
next
  case False
  have "\<forall>k\<in>set (lookupStage s b). k \<noteq> projectUser u"
  proof
    fix k assume "k \<in> set (lookupStage s b)"
    then obtain v where "user_id v = bookingUser b" "k = projectUser v"
      by (auto simp: lookupStage_elem)
    with False have "proj_id k \<noteq> proj_id (projectUser u)" by simp
    then show "k \<noteq> projectUser u" by blast
  qed
  then have "filter (\<lambda>x. x = projectUser u) (lookupStage s b) = []"
    by (simp add: filter_empty_conv)
  with False show ?thesis by simp
qed

lemma joinedUsers_count_aux:
  assumes "unique_user_ids s" "u \<in> set (users s)" "user_isActive u"
  shows "length (filter (\<lambda>x. x = projectUser u) (concat (map (lookupStage s) bs)))
           = length (filter (\<lambda>b. bookingUser b = user_id u) bs)"
  by (induction bs) (simp_all add: lookupStage_count[OF assms])

lemma joinedUsers_count:
  assumes "unique_user_ids s" "u \<in> set (users s)" "user_isActive u"
  shows "length (filter (\<lambda>x. x = projectUser u) (joinedUsers s)) = owner_count s u"
proof -
  have "filter (\<lambda>b. bookingUser b = user_id u) (filter is_completed_paid (bookings s))
      = filter (\<lambda>b. is_completed_paid b \<and> bookingUser b = user_id u) (bookings s)"
    by simp
  then show ?thesis
    unfolding joinedUsers_def owner_count_def joinedUsers_count_aux[OF assms] by simp
qed

lemma joinedUsers_elem:
  "k \<in> set (joinedUsers s) \<longleftrightarrow>
     (\<exists>b\<in>set (bookings s). is_completed_paid b \<and>
        (\<exists>u\<in>set (users s). user_isActive u \<and> user_id u = bookingUser b \<and> k = projectUser u))"
  by (auto simp: joinedUsers_def lookupStage_elem)

lemma joinedUsers_has_active_owner:
  "joinedUsers (s\<lparr>bookings := filter (has_active_owner s) (bookings s)\<rparr>) = joinedUsers s"
proof -
  have l: "lookupStage (s\<lparr>bookings := bs\<rparr>) = lookupStage s" for bs
    by (rule ext) (simp add: lookupStage_def)
  have "concat (map (lookupStage s) (filter (has_active_owner s) bs))
      = concat (map (lookupStage s) bs)" for bs
    by (induction bs) (simp_all add: lookupStage_no_owner)
  then have "concat (map (lookupStage s) (filter (has_active_owner s) (filter is_completed_paid (bookings s))))
      = concat (map (lookupStage s) (filter is_completed_paid (bookings s)))" .
  moreover have "filter is_completed_paid (filter (has_active_owner s) (bookings s))
      = filter (has_active_owner s) (filter is_completed_paid (bookings s))"
    by (simp add: conj_commute)
  ultimately show ?thesis by (simp add: joinedUsers_def l)
qed

text \<open>
  C10. The report is the same as the report over the bookings whose owner has an active user
  record: a booking whose owning user record is inactive or missing adds to no count. For
  an id whose user records are all inactive (or that has none), no entry of the report
  carries that id.
\<close>

theorem findTopUsersByBooking_inactive:
  "findTopUsersByBooking s
     = findTopUsersByBooking (s\<lparr>bookings := filter (has_active_owner s) (bookings s)\<rparr>)
   \<and> (\<forall>i. (\<forall>u\<in>set (users s). user_id u = i \<longrightarrow> \<not> user_isActive u) \<longrightarrow>
          (\<forall>e\<in>set (findTopUsersByBooking s). proj_id (top_bookingUser e) \<noteq> i))"
proof (intro conjI allI impI ballI)
  show "findTopUsersByBooking s
     = findTopUsersByBooking (s\<lparr>bookings := filter (has_active_owner s) (bookings s)\<rparr>)"
    by (simp only: findTopUsersByBooking_alt joinedUsers_has_active_owner)
next
  fix i e
  assume inactive: "\<forall>u\<in>set (users s). user_id u = i \<longrightarrow> \<not> user_isActive u"
    and e: "e \<in> set (findTopUsersByBooking s)"
  from e have "top_bookingUser e \<in> set (joinedUsers s)"
    by (auto simp: findTopUsersByBooking_alt dest!: in_set_takeD)
  then obtain u where "u \<in> set (users s)" "user_isActive u" "top_bookingUser e = projectUser u"
    by (auto simp: joinedUsers_elem)
  with inactive show "proj_id (top_bookingUser e) \<noteq> i" by auto
qed

theorem findTopUsersByBooking_inactive_witness:
  "filter (has_active_owner store_report) (bookings store_report) = [B1, B2, B3, B4]
   \<and> is_completed_paid B5 \<and> bookingUser B5 = user_id U3 \<and> \<not> user_isActive U3
   \<and> users store_report = [U1, U2, U3]
   \<and> findTopUsersByBooking store_report
       = findTopUsersByBooking (store_report\<lparr>bookings := [B1, B2, B3, B4]\<rparr>)
   \<and> findTopUsersByBooking store_report
       = [\<lparr> top_bookingUser = projectUser U1, totalBookingCount = 2 \<rparr>,
          \<lparr> top_bookingUser = projectUser U2, totalBookingCount = 1 \<rparr>]
   \<and> ''u3'' \<notin> set (map (\<lambda>e. proj_id (top_bookingUser e)) (findTopUsersByBooking store_report))"
proof -
  have f: "filter (has_active_owner store_report) (bookings store_report) = [B1, B2, B3, B4]"
    by (simp add: has_active_owner_def report_defs)
  have b: "is_completed_paid B5 \<and> bookingUser B5 = user_id U3 \<and> \<not> user_isActive U3"
    by (simp add: is_completed_paid_def report_defs)
  have us: "users store_report = [U1, U2, U3]" by (simp add: report_defs)
  have h: "\<forall>u\<in>set (users store_report). user_id u = ''u3'' \<longrightarrow> \<not> user_isActive u"
    by (simp add: report_defs)
  have v: "findTopUsersByBooking store_report
       = [\<lparr> top_bookingUser = projectUser U1, totalBookingCount = 2 \<rparr>,
          \<lparr> top_bookingUser = projectUser U2, totalBookingCount = 1 \<rparr>]"
    by (simp add: findTopUsersByBooking_def lookupStage_def unwindStage_def groupStage_def
          sortStage_def matches_def completedPaid_def projectUser_def report_defs)
  note inst = findTopUsersByBooking_inactive [of store_report]
  have e: "findTopUsersByBooking store_report
       = findTopUsersByBooking (store_report\<lparr>bookings := [B1, B2, B3, B4]\<rparr>)"
    using inst [THEN conjunct1] by (simp only: f)
  have n: "''u3'' \<notin> set (map (\<lambda>e. proj_id (top_bookingUser e)) (findTopUsersByBooking store_report))"
    using inst [THEN conjunct2, THEN spec, of "''u3''"] h by auto
  from f b us e v n show ?thesis by (intro conjI) simp_all
qed
text \<open>
  C8, as stated, fails in what an entry carries: the projection keeps the user's id and
  \<^verbatim>\<open>dateJoined\<close> besides email, name and avatar. Two stores with the same bookings and
  the same emails, names and avatars, which differ in one joining date, give different
  reports. (The completed and paid bookings \<open>B5\<close> and \<open>B6\<close>, whose owners are inactive
  or missing, are in no group.)
\<close>

theorem findTopUsersByBooking_projection_counterexample:
  "findTopUsersByBooking store_report
     = [\<lparr> top_bookingUser =
            \<lparr> proj_id = ''u1'', proj_email = ''ann@example.org'', proj_fullName = ''Ann'',
              proj_profilePicture = ''ann.png'', proj_dateJoined = 1 \<rparr>,
          totalBookingCount = 2 \<rparr>,
        \<lparr> top_bookingUser =
            \<lparr> proj_id = ''u2'', proj_email = ''bob@example.org'', proj_fullName = ''Bob'',
              proj_profilePicture = ''bob.png'', proj_dateJoined = 2 \<rparr>,
          totalBookingCount = 1 \<rparr>]
   \<and> bookings store_report_rejoined = bookings store_report
   \<and> map email (users store_report_rejoined) = map email (users store_report)
   \<and> map fullName (users store_report_rejoined) = map fullName (users store_report)
   \<and> map profilePicture (users store_report_rejoined) = map profilePicture (users store_report)
   \<and> findTopUsersByBooking store_report_rejoined \<noteq> findTopUsersByBooking store_report"
  by (simp add: findTopUsersByBooking_def lookupStage_def unwindStage_def groupStage_def
        sortStage_def matches_def completedPaid_def projectUser_def report_defs
        store_report_rejoined_def)

lemma joinedUsers_positive:
  "k \<in> set (joinedUsers s) \<longleftrightarrow> 0 < length (filter (\<lambda>x. x = k) (joinedUsers s))"
  by (auto simp: filter_empty_conv)

lemma findTopUsersByBooking_entry:
  assumes "e \<in> set (findTopUsersByBooking s)"
  shows "top_bookingUser e \<in> set (joinedUsers s)
    \<and> totalBookingCount e = length (filter (\<lambda>x. x = top_bookingUser e) (joinedUsers s))"
  using assms by (auto simp: findTopUsersByBooking_alt dest!: in_set_takeD)

text \<open>
  C8, amended. The report groups the completed and paid bookings whose owning user record
  exists and is active by that user and counts each group. It has at most 10 entries, in
  descending order of count, one for each user at most. An entry carries the user's id,
  email, name, avatar and joining date together with the number of the user's completed
  and paid bookings, which is positive. A user with such bookings who is left out is
  outranked: the report then has 10 entries, each of at least that user's count.
\<close>

theorem findTopUsersByBooking_top_ten:
  assumes "unique_user_ids s"
  shows "length (findTopUsersByBooking s) \<le> 10
    \<and> sorted_wrt (\<lambda>x y. totalBookingCount y \<le> totalBookingCount x) (findTopUsersByBooking s)
    \<and> distinct (map top_bookingUser (findTopUsersByBooking s))
    \<and> (\<forall>e\<in>set (findTopUsersByBooking s).
          \<exists>u\<in>set (users s). user_isActive u \<and> top_bookingUser e = projectUser u
            \<and> totalBookingCount e = owner_count s u \<and> 0 < owner_count s u)
    \<and> (\<forall>u\<in>set (users s). user_isActive u \<and> 0 < owner_count s u \<longrightarrow>
          projectUser u \<in> top_bookingUser ` set (findTopUsersByBooking s)
          \<or> (length (findTopUsersByBooking s) = 10
              \<and> (\<forall>e\<in>set (findTopUsersByBooking s). owner_count s u \<le> totalBookingCount e)))"
proof -
  define cnt where "cnt k = length (filter (\<lambda>x. x = k) (joinedUsers s))" for k
  define G where "G = map (\<lambda>k. (k, cnt k)) (remdups (joinedUsers s))"
  define S where "S = sortStage G"
  define mk where "mk = (\<lambda>(k, n :: nat). \<lparr> top_bookingUser = k, totalBookingCount = n \<rparr>)"
  have R: "findTopUsersByBooking s = map mk (take 10 S)"
    by (simp add: findTopUsersByBooking_alt S_def G_def cnt_def mk_def)
  have mk_k: "top_bookingUser (mk g) = fst g" and mk_n: "totalBookingCount (mk g) = snd g" for g
    by (simp_all add: mk_def split: prod.splits)
  have desc: "sorted_wrt (\<lambda>x y. snd y \<le> snd x) S"
    unfolding S_def by (rule sortStage_descending)
  have c1: "length (findTopUsersByBooking s) \<le> 10"
    by (simp add: R)
  have "sorted_wrt (\<lambda>x y. snd y \<le> snd x) (take 10 S)"
    using desc by (rule sorted_wrt_take)
  then have c2: "sorted_wrt (\<lambda>x y. totalBookingCount y \<le> totalBookingCount x)
      (findTopUsersByBooking s)"
    by (simp add: R sorted_wrt_map mk_n)
  have "distinct (map fst G)"
    by (simp add: G_def comp_def)
  then have "distinct (map fst S)"
    by (simp add: S_def distinct_fst_sortStage)
  then have "distinct (take 10 (map fst S))"
    by (rule distinct_take)
  then have c3: "distinct (map top_bookingUser (findTopUsersByBooking s))"
    by (simp add: R comp_def mk_k take_map)
  have c4: "\<forall>e\<in>set (findTopUsersByBooking s).
          \<exists>u\<in>set (users s). user_isActive u \<and> top_bookingUser e = projectUser u
            \<and> totalBookingCount e = owner_count s u \<and> 0 < owner_count s u"
  proof
    fix e assume "e \<in> set (findTopUsersByBooking s)"
    from findTopUsersByBooking_entry[OF this]
    have k: "top_bookingUser e \<in> set (joinedUsers s)"
      and n: "totalBookingCount e = cnt (top_bookingUser e)"
      by (simp_all add: cnt_def)
    from k obtain u where u: "u \<in> set (users s)" "user_isActive u"
      and p: "top_bookingUser e = projectUser u"
      by (auto simp: joinedUsers_elem)
    have "cnt (projectUser u) = owner_count s u"
      unfolding cnt_def using assms u by (rule joinedUsers_count)
    moreover have "0 < cnt (projectUser u)"
      unfolding cnt_def using k p joinedUsers_positive[of "projectUser u" s] by metis
    ultimately show "\<exists>u\<in>set (users s). user_isActive u \<and> top_bookingUser e = projectUser u
            \<and> totalBookingCount e = owner_count s u \<and> 0 < owner_count s u"
      using u p n by auto
  qed
  have c5: "\<forall>u\<in>set (users s). user_isActive u \<and> 0 < owner_count s u \<longrightarrow>
          projectUser u \<in> top_bookingUser ` set (findTopUsersByBooking s)
          \<or> (length (findTopUsersByBooking s) = 10
              \<and> (\<forall>e\<in>set (findTopUsersByBooking s). owner_count s u \<le> totalBookingCount e))"
  proof (intro ballI impI)
    fix u assume u: "u \<in> set (users s)" and "user_isActive u \<and> 0 < owner_count s u"
    then have a: "user_isActive u" and pos: "0 < owner_count s u" by simp_all
    have cu: "cnt (projectUser u) = owner_count s u"
      unfolding cnt_def using assms u a by (rule joinedUsers_count)
    with pos have "0 < length (filter (\<lambda>x. x = projectUser u) (joinedUsers s))"
      by (simp only: cnt_def)
    then have "projectUser u \<in> set (joinedUsers s)"
      by (simp only: joinedUsers_positive[of "projectUser u" s])
    then have "(projectUser u, owner_count s u) \<in> set G"
      using cu by (auto simp: G_def)
    then have inS: "(projectUser u, owner_count s u) \<in> set S"
      by (simp add: S_def)
    have "set S = set (take 10 S) \<union> set (drop 10 S)"
      by (metis append_take_drop_id set_append)
    with inS consider "(projectUser u, owner_count s u) \<in> set (take 10 S)"
      | "(projectUser u, owner_count s u) \<in> set (drop 10 S)"
      by blast
    then show "projectUser u \<in> top_bookingUser ` set (findTopUsersByBooking s)
          \<or> (length (findTopUsersByBooking s) = 10
              \<and> (\<forall>e\<in>set (findTopUsersByBooking s). owner_count s u \<le> totalBookingCount e))"
    proof cases
      case 1
      then have "top_bookingUser (mk (projectUser u, owner_count s u))
          \<in> top_bookingUser ` set (findTopUsersByBooking s)"
        unfolding R by (intro imageI) simp
      then show ?thesis by (simp add: mk_k)
    next
      case 2
      then have "drop 10 S \<noteq> []" by auto
      then have len: "length (take 10 S) = 10" by simp
      have "sorted_wrt (\<lambda>x y. snd y \<le> snd x) (take 10 S @ drop 10 S)"
        using desc by simp
      then have "\<forall>x\<in>set (take 10 S). \<forall>y\<in>set (drop 10 S). snd y \<le> snd x"
        by (simp only: sorted_wrt_append) blast
      with 2 have "\<forall>x\<in>set (take 10 S). owner_count s u \<le> snd x"
        by fastforce
      then have "\<forall>e\<in>set (findTopUsersByBooking s). owner_count s u \<le> totalBookingCount e"
        by (auto simp: R mk_n)
      moreover have "length (findTopUsersByBooking s) = 10"
        using len by (simp add: R)
      ultimately show ?thesis by simp
    qed
  qed
  from c1 c2 c3 c4 c5 show ?thesis by (intro conjI)
qed

theorem findTopUsersByBooking_top_ten_witness:
  "unique_user_ids store_report
   \<and> length (findTopUsersByBooking store_report) \<le> 10
   \<and> sorted_wrt (\<lambda>x y. totalBookingCount y \<le> totalBookingCount x)
       (findTopUsersByBooking store_report)
   \<and> distinct (map top_bookingUser (findTopUsersByBooking store_report))
   \<and> findTopUsersByBooking store_report
       = [\<lparr> top_bookingUser = projectUser U1, totalBookingCount = 2 \<rparr>,
          \<lparr> top_bookingUser = projectUser U2, totalBookingCount = 1 \<rparr>]
   \<and> owner_count store_report U1 = 2 \<and> owner_count store_report U2 = 1"
proof -
  have u: "unique_user_ids store_report"
    by (simp add: unique_user_ids_def report_defs)
  have v: "findTopUsersByBooking store_report
       = [\<lparr> top_bookingUser = projectUser U1, totalBookingCount = 2 \<rparr>,
          \<lparr> top_bookingUser = projectUser U2, totalBookingCount = 1 \<rparr>]"
    by (simp add: findTopUsersByBooking_def lookupStage_def unwindStage_def groupStage_def
          sortStage_def matches_def completedPaid_def projectUser_def report_defs)
  have o: "owner_count store_report U1 = 2 \<and> owner_count store_report U2 = 1"
    by (simp add: owner_count_def is_completed_paid_def report_defs)
  note inst = findTopUsersByBooking_top_ten [OF u]
  have c1: "length (findTopUsersByBooking store_report) \<le> 10"
    using inst by (rule conjunct1)
  have c2: "sorted_wrt (\<lambda>x y. totalBookingCount y \<le> totalBookingCount x)
       (findTopUsersByBooking store_report)"
    using inst [THEN conjunct2] by (rule conjunct1)
  have c3: "distinct (map top_bookingUser (findTopUsersByBooking store_report))"
    using inst [THEN conjunct2, THEN conjunct2] by (rule conjunct1)
  from u c1 c2 c3 v o show ?thesis by (intro conjI) simp_all
qed

end
